theory Spec2Isabelle
  imports Complex_Main "HOL-Library.AList"
begin

section \<open>Data model of \<^verbatim>\<open>core/process_monitor.py\<close>\<close>

text \<open>
  The dataclass \<^verbatim>\<open>ProcessInfo\<close>. Python's \<^verbatim>\<open>int\<close> is unbounded, hence \<open>int\<close>.
  The three \<^verbatim>\<open>float\<close> fields are only stored, tested for truthiness and written out
  again; no arithmetic is done on them, and they are read here as \<open>real\<close>.
\<close>

record ProcessInfo =
  pid :: int
  name :: string
  cpu_percent :: real
  memory_percent :: real
  status :: string
  create_time :: real
  cmdline :: "string list"

text \<open>
  The dictionary \<^verbatim>\<open>proc.info\<close> that \<^verbatim>\<open>psutil.process_iter\<close> attaches to each process for
  the seven requested attributes. Every key is present; an attribute the host could not
  supply has the value \<^verbatim>\<open>None\<close>. The pid is always an integer.
\<close>

record proc_info =
  info_pid :: int
  info_name :: "string option"
  info_cpu_percent :: "real option"
  info_memory_percent :: "real option"
  info_status :: "string option"
  info_create_time :: "real option"
  info_cmdline :: "string list option"

text \<open>
  Exceptions as values. The type ranges over subclasses of Python's \<^verbatim>\<open>Exception\<close>:
  the psutil errors named in the source (\<^verbatim>\<open>ZombieProcess\<close> is a subclass of
  \<^verbatim>\<open>NoSuchProcess\<close> in psutil) and the built-in errors that library and handler calls
  of this module can raise. \<^verbatim>\<open>SystemExit\<close> and \<^verbatim>\<open>KeyboardInterrupt\<close>, which are not
  errors and which \<^verbatim>\<open>except Exception\<close> lets through, are not modelled.
\<close>

datatype exn =
  NoSuchProcess | ZombieProcess | AccessDenied | TimeoutExpired
  | ValueError | OverflowError | KeyError | OSError | RuntimeError

text \<open>
  One step of the generator \<^verbatim>\<open>psutil.process_iter([...])\<close> as the \<^verbatim>\<open>for\<close> statement of
  \<^verbatim>\<open>get_processes\<close> sees it: the generator yields a process whose dictionary
  \<^verbatim>\<open>proc.info\<close> is already filled, or it raises. What it raises is raised by the
  \<^verbatim>\<open>for\<close> statement itself, outside the \<^verbatim>\<open>try\<close>.
\<close>

datatype proc_item = Info proc_info | Breaks exn

subsection \<open>Truthiness and \<^verbatim>\<open>x or default\<close>\<close>

text \<open>
  \<^verbatim>\<open>x or d\<close> evaluates to \<^verbatim>\<open>x\<close> when \<^verbatim>\<open>x\<close> is truthy and to \<^verbatim>\<open>d\<close> otherwise. \<^verbatim>\<open>None\<close> is
  falsy; a string or list is falsy when empty; a float is falsy when it equals zero.
\<close>

definition py_or :: "('a \<Rightarrow> bool) \<Rightarrow> 'a option \<Rightarrow> 'a \<Rightarrow> 'a" where
  "py_or truthy x d = (case x of None \<Rightarrow> d | Some v \<Rightarrow> if truthy v then v else d)"

definition truthy_seq :: "'a list \<Rightarrow> bool" where
  "truthy_seq xs = (xs \<noteq> [])"

definition truthy_float :: "real \<Rightarrow> bool" where
  "truthy_float x = (x \<noteq> 0)"

subsection \<open>\<^verbatim>\<open>get_processes\<close>\<close>

text \<open>The constructor call \<^verbatim>\<open>ProcessInfo(pid=info['pid'], name=info['name'] or 'Unknown', ...)\<close>.\<close>

definition make_process_info :: "proc_info \<Rightarrow> ProcessInfo" where
  "make_process_info info =
     \<lparr> pid = info_pid info,
       name = py_or truthy_seq (info_name info) ''Unknown'',
       cpu_percent = py_or truthy_float (info_cpu_percent info) 0,
       memory_percent = py_or truthy_float (info_memory_percent info) 0,
       status = py_or truthy_seq (info_status info) ''unknown'',
       create_time = py_or truthy_float (info_create_time info) 0,
       cmdline = py_or truthy_seq (info_cmdline info) [] \<rparr>"

text \<open>
  The body of the \<^verbatim>\<open>try\<close>: reading the attribute \<^verbatim>\<open>proc.info\<close>, seven subscripts of a
  dictionary that has all seven keys, and the constructor call. None of these steps
  raises.
\<close>

definition try_process :: "proc_info \<Rightarrow> exn + ProcessInfo" where
  "try_process info = Inr (make_process_info info)"

text \<open>\<^verbatim>\<open>except (psutil.NoSuchProcess, psutil.AccessDenied, psutil.ZombieProcess): continue\<close>\<close>

definition skipped :: "exn \<Rightarrow> bool" where
  "skipped e = (e \<in> {NoSuchProcess, AccessDenied, ZombieProcess})"

text \<open>
  The \<^verbatim>\<open>for\<close> loop with its accumulator \<^verbatim>\<open>processes\<close>. An exception of the body that
  the \<^verbatim>\<open>except\<close> clause does not name, and every exception of the generator, leaves
  the loop and the function.
\<close>

fun get_processes_loop :: "proc_item list \<Rightarrow> ProcessInfo list \<Rightarrow> exn + ProcessInfo list" where
  "get_processes_loop [] processes = Inr processes"
| "get_processes_loop (Info info # rest) processes =
     (case try_process info of
        Inr process_info \<Rightarrow> get_processes_loop rest (processes @ [process_info])
      | Inl e \<Rightarrow> if skipped e then get_processes_loop rest processes else Inl e)"
| "get_processes_loop (Breaks e # rest) processes = Inl e"

definition get_processes :: "proc_item list \<Rightarrow> exn + ProcessInfo list" where
  "get_processes items = get_processes_loop items []"

subsection \<open>The host behind \<^verbatim>\<open>psutil.process_iter\<close>\<close>

text \<open>
  psutil is a library outside the repository. What the host answers when
  \<^verbatim>\<open>process_iter\<close> queries the attributes of one pid:
  \<^item> \<open>Readable info\<close>: the attributes are read; an attribute that cannot be supplied is
    \<^verbatim>\<open>None\<close> in \<open>info\<close>;
  \<^item> \<open>Denied\<close>: every attribute query is refused (\<^verbatim>\<open>AccessDenied\<close>); psutil puts
    \<^verbatim>\<open>None\<close> into the dictionary for each of them;
  \<^item> \<open>Vanished\<close>: the process is gone when it is queried (\<^verbatim>\<open>NoSuchProcess\<close>);
    \<^verbatim>\<open>process_iter\<close> catches this itself and goes on to the next pid;
  \<^item> \<open>Broken e\<close>: the generator raises \<open>e\<close>.
  The processes of the host are a table keyed by pid (an association list read as a
  dictionary). \<^verbatim>\<open>process_iter\<close> visits every pid of the table once, in ascending
  order, and the entry \<^verbatim>\<open>'pid'\<close> of a yielded dictionary is the pid visited.
\<close>

datatype answer = Readable proc_info | Denied | Vanished | Broken exn

definition unreadable :: "int \<Rightarrow> proc_info" where
  "unreadable k =
     \<lparr> info_pid = k, info_name = None, info_cpu_percent = None,
       info_memory_percent = None, info_status = None,
       info_create_time = None, info_cmdline = None \<rparr>"

fun iter_steps :: "(int \<rightharpoonup> answer) \<Rightarrow> int list \<Rightarrow> proc_item list" where
  "iter_steps host [] = []"
| "iter_steps host (k # ks) =
     (case host k of
        None \<Rightarrow> iter_steps host ks
      | Some (Readable info) \<Rightarrow> Info (info\<lparr>info_pid := k\<rparr>) # iter_steps host ks
      | Some Denied \<Rightarrow> Info (unreadable k) # iter_steps host ks
      | Some Vanished \<Rightarrow> iter_steps host ks
      | Some (Broken e) \<Rightarrow> [Breaks e])"

definition process_iter :: "(int \<times> answer) list \<Rightarrow> proc_item list" where
  "process_iter table = iter_steps (map_of table) (sorted_list_of_set (fst ` set table))"

text \<open>A host none of whose pids makes the generator raise.\<close>

fun is_Broken :: "answer \<Rightarrow> bool" where
  "is_Broken (Broken e) = True"
| "is_Broken a = False"

definition steady :: "(int \<times> answer) list \<Rightarrow> bool" where
  "steady table = list_all (\<lambda>(k, a). \<not> is_Broken a) table"

text \<open>The pids of the table whose process has not vanished, in ascending order.\<close>

definition remaining :: "(int \<times> answer) list \<Rightarrow> int list" where
  "remaining table =
     filter (\<lambda>k. map_of table k \<noteq> Some Vanished) (sorted_list_of_set (fst ` set table))"

text \<open>The record with the given pid and every default.\<close>

definition all_defaults :: "int \<Rightarrow> ProcessInfo" where
  "all_defaults k = \<lparr> pid = k, name = ''Unknown'', cpu_percent = 0, memory_percent = 0,
                       status = ''unknown'', create_time = 0, cmdline = [] \<rparr>"

subsection \<open>Observable effects and the state of a \<^verbatim>\<open>ProcessMonitor\<close>\<close>

text \<open>
  Log lines are kept structured; each constructor stands for one format string of the
  source and carries the values interpolated into it, in the order they are printed:
  \<^item> \<open>NewProcess name pid\<close>: \<^verbatim>\<open>f"New process: {proc.name} (PID: {proc.pid})"\<close>
  \<^item> \<open>ProcessTerminated name pid\<close>: \<^verbatim>\<open>f"Process terminated: {proc.name} (PID: {proc.pid})"\<close>
  \<^item> \<open>Terminated pid name\<close>: \<^verbatim>\<open>f"Process {pid} ({proc.name()}) terminated"\<close>
  \<^item> \<open>FailedToTerminate pid e\<close>: \<^verbatim>\<open>f"Failed to terminate process {pid}: {e}"\<close>
  \<^item> \<open>CallbackError e\<close>: \<^verbatim>\<open>f"Callback error: {e}"\<close>
  \<^item> \<open>MonitorLoopError e\<close>: \<^verbatim>\<open>f"Monitor loop error: {e}"\<close>
  \<^item> \<open>MonitoringStarted\<close>, \<open>MonitoringStopped\<close>, \<open>SnapshotSaved filename\<close>: the three
    remaining \<^verbatim>\<open>logger.info\<close> lines.
\<close>

datatype level = INFO | ERROR

datatype message =
    NewProcess string int
  | ProcessTerminated string int
  | Terminated int string
  | FailedToTerminate int exn
  | CallbackError exn
  | MonitorLoopError exn
  | MonitoringStarted
  | MonitoringStopped
  | SnapshotSaved string

text \<open>
  What a call does besides changing the object: a line handed to \<^verbatim>\<open>self.logger\<close>, a
  call of a registered handler with a snapshot, \<^verbatim>\<open>time.sleep\<close>, \<^verbatim>\<open>Thread.start\<close> and
  \<^verbatim>\<open>Thread.join(timeout=...)\<close>. Threads are numbered in the order they are started.
  \<open>ThreadExit t\<close> records that the polling thread \<open>t\<close> has left \<^verbatim>\<open>_monitor_loop\<close>.
\<close>

datatype effect =
    Log level message
  | Invoke nat "ProcessInfo list"
  | Sleep real
  | ThreadStart nat
  | ThreadJoin nat real
  | ThreadExit nat

text \<open>
  A registered handler: an identity, and what one call of it with a snapshot does as
  far as the monitor is concerned: the calls of \<^verbatim>\<open>add_callback\<close> and
  \<^verbatim>\<open>remove_callback\<close> it makes on the monitor while it runs, in order, and whether it
  then returns (\<open>None\<close>) or raises (\<open>Some e\<close>). A handler to be removed is named by its
  identity. Two callables are the same object exactly if their identities agree.
  Other interference of a handler with the monitor (assigning its attributes, changing
  the list it is handed) is not modelled.
\<close>

datatype callback = Callback (handler_id: nat) (run: "ProcessInfo list \<Rightarrow> call list \<times> exn option")
  and call = AddCallback callback | RemoveCallback nat

text \<open>
  The attribute \<^verbatim>\<open>update_interval\<close> is a Python \<^verbatim>\<open>float\<close> that is handed to
  \<^verbatim>\<open>time.sleep\<close>: a real number, an infinity or NaN.
\<close>

datatype pyfloat = Finite (seconds: real) | PosInf | NegInf | NaN

text \<open>
  The attributes set by \<^verbatim>\<open>__init__\<close>. \<^verbatim>\<open>process_cache\<close> is a Python dictionary, kept as
  an association list in insertion order; \<^verbatim>\<open>stop_event\<close> is the flag of the
  \<^verbatim>\<open>threading.Event\<close>; \<open>trace\<close> collects the effects so far, oldest first.
\<close>

record monitor =
  monitoring :: bool
  monitor_thread :: "nat option"
  stop_event :: bool
  update_interval :: pyfloat
  process_cache :: "(int \<times> ProcessInfo) list"
  callbacks :: "callback list"
  trace :: "effect list"

definition init :: monitor where
  "init = \<lparr> monitoring = False, monitor_thread = None, stop_event = False,
            update_interval = Finite 1, process_cache = [], callbacks = [], trace = [] \<rparr>"

definition emit :: "effect \<Rightarrow> monitor \<Rightarrow> monitor" where
  "emit e m = m\<lparr>trace := trace m @ [e]\<rparr>"

definition logger :: "level \<Rightarrow> message \<Rightarrow> monitor \<Rightarrow> monitor" where
  "logger l msg m = emit (Log l msg) m"

subsection \<open>\<^verbatim>\<open>add_callback\<close> and \<^verbatim>\<open>remove_callback\<close>\<close>

definition add_callback :: "callback \<Rightarrow> monitor \<Rightarrow> monitor" where
  "add_callback cb m = m\<lparr>callbacks := callbacks m @ [cb]\<rparr>"

text \<open>\<^verbatim>\<open>list.remove\<close> deletes the first element equal to its argument.\<close>

fun remove_first :: "nat \<Rightarrow> callback list \<Rightarrow> callback list" where
  "remove_first k [] = []"
| "remove_first k (c # cs) = (if handler_id c = k then cs else c # remove_first k cs)"

definition remove_callback :: "callback \<Rightarrow> monitor \<Rightarrow> monitor" where
  "remove_callback cb m =
     (if list_ex (\<lambda>c. handler_id c = handler_id cb) (callbacks m)
      then m\<lparr>callbacks := remove_first (handler_id cb) (callbacks m)\<rparr>
      else m)"

text \<open>
  One call a handler makes on the monitor. Removing names the registered callable of
  that identity; when none is registered the list stays as it is.
\<close>

fun apply_call :: "call \<Rightarrow> monitor \<Rightarrow> monitor" where
  "apply_call (AddCallback cb) m = add_callback cb m"
| "apply_call (RemoveCallback k) m =
     (case find (\<lambda>c. handler_id c = k) (callbacks m) of
        Some c \<Rightarrow> remove_callback c m
      | None \<Rightarrow> m)"

subsection \<open>\<^verbatim>\<open>kill_process\<close>\<close>








subsection \<open>\<^verbatim>\<open>start_monitoring\<close> and \<^verbatim>\<open>stop_monitoring\<close>\<close>

fun is_thread_start :: "effect \<Rightarrow> bool" where
  "is_thread_start (ThreadStart t) = True"
| "is_thread_start e = False"

definition threads_started :: "monitor \<Rightarrow> nat" where
  "threads_started m = length (filter is_thread_start (trace m))"

text \<open>
  The polling threads that are alive: those started that have not left
  \<^verbatim>\<open>_monitor_loop\<close>.
\<close>

fun started_id :: "effect \<Rightarrow> nat option" where
  "started_id (ThreadStart t) = Some t"
| "started_id e = None"

definition live :: "monitor \<Rightarrow> nat list" where
  "live m = filter (\<lambda>t. ThreadExit t \<notin> set (trace m)) (List.map_filter started_id (trace m))"

definition start_monitoring :: "monitor \<Rightarrow> monitor" where
  "start_monitoring m =
     (if monitoring m then m
      else
        let t = threads_started m;
            m1 = m\<lparr>monitoring := True\<rparr>;
            m2 = m1\<lparr>stop_event := False\<rparr>;
            m3 = m2\<lparr>monitor_thread := Some t\<rparr>;
            m4 = emit (ThreadStart t) m3
        in logger INFO MonitoringStarted m4)"

text \<open>
  The polling thread \<open>t\<close> evaluates the condition of
  \<^verbatim>\<open>while not self.stop_event.is_set()\<close>: when the flag is set it leaves the loop and
  ends, otherwise it goes on polling.
\<close>

definition loop_test :: "nat \<Rightarrow> monitor \<Rightarrow> monitor" where
  "loop_test t m = (if t \<in> set (live m) \<and> stop_event m then emit (ThreadExit t) m else m)"

text \<open>
  \<^verbatim>\<open>self.monitor_thread.join(timeout=2)\<close>. Whether the thread comes to its loop
  condition within the two seconds depends on how long its current iteration takes and
  is an input: \<open>True\<close> when it does, \<open>False\<close> when the join gives up. The result of
  the join is not inspected by the source.
\<close>

definition thread_join :: "bool \<Rightarrow> nat \<Rightarrow> monitor \<Rightarrow> monitor" where
  "thread_join in_time t m = emit (ThreadJoin t 2) (if in_time then loop_test t m else m)"

definition stop_monitoring :: "bool \<Rightarrow> monitor \<Rightarrow> monitor" where
  "stop_monitoring in_time m =
     (if \<not> monitoring m then m
      else
        let m1 = m\<lparr>monitoring := False\<rparr>;
            m2 = m1\<lparr>stop_event := True\<rparr>;
            m3 = (case monitor_thread m2 of
                    Some t \<Rightarrow> thread_join in_time t m2
                  | None \<Rightarrow> m2)
        in logger INFO MonitoringStopped m3)"

text \<open>
  A history of a monitor as its owner and its polling threads make it: calls of
  \<^verbatim>\<open>start_monitoring\<close> and \<^verbatim>\<open>stop_monitoring\<close>, and polling threads coming to their
  loop condition.
\<close>

datatype action = Start | Stop bool | Test nat

fun step :: "action \<Rightarrow> monitor \<Rightarrow> monitor" where
  "step Start m = start_monitoring m"
| "step (Stop in_time) m = stop_monitoring in_time m"
| "step (Test t) m = loop_test t m"

definition history :: "action list \<Rightarrow> monitor" where
  "history acts = fold step acts init"

text \<open>A history in which no join gave up.\<close>

fun joined :: "action \<Rightarrow> bool" where
  "joined (Stop in_time) = in_time"
| "joined a = True"

subsection \<open>\<^verbatim>\<open>_detect_changes\<close>\<close>

text \<open>
  The dictionary comprehension \<^verbatim>\<open>{p.pid: p for p in current_processes}\<close>: a later
  record with the same pid replaces the value and keeps the position of the key.
\<close>

definition dict_of :: "ProcessInfo list \<Rightarrow> (int \<times> ProcessInfo) list" where
  "dict_of ps = foldl (\<lambda>d p. AList.update (pid p) p d) [] ps"

definition keys :: "('k \<times> 'v) list \<Rightarrow> 'k set" where
  "keys d = set (map fst d)"

text \<open>
  The order in which a \<^verbatim>\<open>for\<close> loop visits a Python \<^verbatim>\<open>set\<close> is that of its hash
  table and is not fixed by the language; the model visits in ascending order. Each
  element is visited once.
\<close>

definition iterate :: "int set \<Rightarrow> int list" where
  "iterate A = sorted_list_of_set A"

text \<open>
  A stateful step returns the exception it raised, if any, with the state reached.
  The subscript \<^verbatim>\<open>d[pid]\<close> raises \<^verbatim>\<open>KeyError\<close> on a missing key.
\<close>

fun new_loop :: "(int \<times> ProcessInfo) list \<Rightarrow> int list \<Rightarrow> monitor \<Rightarrow> exn option \<times> monitor" where
  "new_loop current_pids [] m = (None, m)"
| "new_loop current_pids (k # ks) m =
     (case map_of current_pids k of
        None \<Rightarrow> (Some KeyError, m)
      | Some proc \<Rightarrow>
          new_loop current_pids ks (logger INFO (NewProcess (name proc) (pid proc)) m))"

fun dead_loop :: "int list \<Rightarrow> monitor \<Rightarrow> exn option \<times> monitor" where
  "dead_loop [] m = (None, m)"
| "dead_loop (k # ks) m =
     (case map_of (process_cache m) k of
        None \<Rightarrow> (Some KeyError, m)
      | Some proc \<Rightarrow>
          dead_loop ks (logger INFO (ProcessTerminated (name proc) (pid proc)) m))"

definition detect_changes :: "ProcessInfo list \<Rightarrow> monitor \<Rightarrow> exn option \<times> monitor" where
  "detect_changes current_processes m =
     (let current_pids = dict_of current_processes;
          cached_pids = keys (process_cache m);
          new_pids = keys current_pids - cached_pids
      in case new_loop current_pids (iterate new_pids) m of
           (Some e, m1) \<Rightarrow> (Some e, m1)
         | (None, m1) \<Rightarrow>
            (let dead_pids = cached_pids - keys current_pids
             in case dead_loop (iterate dead_pids) m1 of
                  (Some e, m2) \<Rightarrow> (Some e, m2)
                | (None, m2) \<Rightarrow> (None, m2\<lparr>process_cache := current_pids\<rparr>)))"

text \<open>
  Every dictionary that \<^verbatim>\<open>_detect_changes\<close> stores maps a key to a record with that
  pid; the empty cache of \<^verbatim>\<open>__init__\<close> does so too.
\<close>

definition keyed_by_pid :: "(int \<times> ProcessInfo) list \<Rightarrow> bool" where
  "keyed_by_pid d = list_all (\<lambda>(k, p). pid p = k) d"

text \<open>A record with the given pid and name, for concrete examples.\<close>

definition sample :: "int \<Rightarrow> string \<Rightarrow> ProcessInfo" where
  "sample i n = \<lparr> pid = i, name = n, cpu_percent = 0, memory_percent = 0,
                  status = ''running'', create_time = 0, cmdline = [] \<rparr>"

text \<open>The effects added between an earlier state and a later one.\<close>

definition emitted :: "monitor \<Rightarrow> monitor \<Rightarrow> effect list" where
  "emitted m m' = drop (length (trace m)) (trace m')"

subsection \<open>\<^verbatim>\<open>_monitor_loop\<close>\<close>

text \<open>
  The inner loop \<^verbatim>\<open>for callback in self.callbacks\<close> with its own \<^verbatim>\<open>try\<close>;
  \<^verbatim>\<open>except Exception\<close> catches every value of \<open>exn\<close>. The \<^verbatim>\<open>for\<close> statement walks the
  list object itself by an index: each step compares the index with the current length
  of \<^verbatim>\<open>self.callbacks\<close> and takes the element now at that index, so calls a handler
  makes on the list take effect during the dispatch. A handler that registers a handler
  on every call keeps the loop running for ever; the first argument bounds the number
  of steps, and \<open>None\<close> says that the dispatch did not finish within the bound.
\<close>

fun notify :: "nat \<Rightarrow> nat \<Rightarrow> ProcessInfo list \<Rightarrow> monitor \<Rightarrow> monitor option" where
  "notify 0 i processes m = None"
| "notify (Suc fuel) i processes m =
     (if i < length (callbacks m) then
        (let callback = callbacks m ! i;
             m1 = emit (Invoke (handler_id callback) processes) m;
             m2 = fold apply_call (fst (run callback processes)) m1;
             m3 = (case snd (run callback processes) of
                     None \<Rightarrow> m2
                   | Some e \<Rightarrow> logger ERROR (CallbackError e) m2)
         in notify fuel (i + 1) processes m3)
      else Some m)"

text \<open>
  \<^verbatim>\<open>time.sleep(self.update_interval)\<close>. CPython rejects NaN with \<^verbatim>\<open>ValueError\<close>,
  converts the duration to a signed 64-bit count of nanoseconds and raises
  \<^verbatim>\<open>OverflowError\<close> when it does not fit, as for the infinities; then it rejects a
  negative duration with \<^verbatim>\<open>ValueError\<close>.
\<close>

definition time_sleep :: "monitor \<Rightarrow> exn option \<times> monitor" where
  "time_sleep m =
     (case update_interval m of
        NaN \<Rightarrow> (Some ValueError, m)
      | PosInf \<Rightarrow> (Some OverflowError, m)
      | NegInf \<Rightarrow> (Some OverflowError, m)
      | Finite x \<Rightarrow>
          (let ns = x * 10 ^ 9
           in if ns < - (2 ^ 63) \<or> 2 ^ 63 \<le> ns then (Some OverflowError, m)
              else if x < 0 then (Some ValueError, m)
              else (None, emit (Sleep x) m)))"


text \<open>
  The body of the outer \<^verbatim>\<open>try\<close> for one iteration over what the generator yields.
  \<open>None\<close>: the dispatch did not finish.
\<close>

definition try_body :: "nat \<Rightarrow> proc_item list \<Rightarrow> monitor \<Rightarrow> (exn option \<times> monitor) option" where
  "try_body fuel items m =
     (case get_processes items of
        Inl e \<Rightarrow> Some (Some e, m)
      | Inr processes \<Rightarrow>
         (case detect_changes processes m of
            (Some e, m1) \<Rightarrow> Some (Some e, m1)
          | (None, m1) \<Rightarrow>
             (case notify fuel 0 processes m1 of
                None \<Rightarrow> None
              | Some m2 \<Rightarrow> Some (time_sleep m2))))"

text \<open>
  One iteration with the outer \<^verbatim>\<open>except Exception\<close>: the handler logs and sleeps, and
  what it raises itself is not caught.
\<close>

definition cycle :: "nat \<Rightarrow> proc_item list \<Rightarrow> monitor \<Rightarrow> (exn option \<times> monitor) option" where
  "cycle fuel items m =
     (case try_body fuel items m of
        None \<Rightarrow> None
      | Some (None, m1) \<Rightarrow> Some (None, m1)
      | Some (Some e, m1) \<Rightarrow> Some (time_sleep (logger ERROR (MonitorLoopError e) m1)))"

text \<open>
  The loop runs on its own thread and may run forever. Each test of
  \<^verbatim>\<open>self.stop_event.is_set()\<close> reads a flag that another thread sets, so the value read
  at each test and what the generator yields in that iteration are inputs, one
  \<open>poll\<close> per iteration. On a finite list of them the loop either returns (it read a set
  flag), ends with an uncaught exception, or is still polling when the list is used up;
  \<open>None\<close> says that a dispatch did not finish within the bound.
\<close>

record poll =
  stop_is_set :: bool
  enumerated :: "proc_item list"

datatype loop_state = Polling | Returned | Died exn

fun monitor_loop :: "nat \<Rightarrow> poll list \<Rightarrow> monitor \<Rightarrow> (loop_state \<times> monitor) option" where
  "monitor_loop fuel [] m = Some (Polling, m)"
| "monitor_loop fuel (c # cs) m =
     (if stop_is_set c then Some (Returned, m)
      else case cycle fuel (enumerated c) m of
             None \<Rightarrow> None
           | Some (None, m1) \<Rightarrow> monitor_loop fuel cs m1
           | Some (Some e, m1) \<Rightarrow> Some (Died e, m1))"





text \<open>
  The later state continues the trace of the earlier one, and every snapshot handed to a
  handler in between satisfies \<open>P\<close>.
\<close>

definition hands_out :: "(ProcessInfo list \<Rightarrow> bool) \<Rightarrow> monitor \<Rightarrow> monitor \<Rightarrow> bool" where
  "hands_out P m m' = (\<exists>evs. trace m' = trace m @ evs \<and> (\<forall>h s. Invoke h s \<in> set evs \<longrightarrow> P s))"







definition quiet :: poll where
  "quiet = \<lparr> stop_is_set = False,
             enumerated =
               process_iter
                 [(1, Readable \<lparr> info_pid = 1, info_name = Some ''init'', info_cpu_percent = None,
                        info_memory_percent = None, info_status = None,
                        info_create_time = None, info_cmdline = None \<rparr>),
                  (2, Vanished)] \<rparr>"



subsection \<open>\<^verbatim>\<open>to_dict\<close> and \<^verbatim>\<open>save_snapshot\<close>\<close>

text \<open>
  The value handed to \<^verbatim>\<open>json.dump\<close>, as the JSON value it denotes: a Python \<^verbatim>\<open>dict\<close> is
  an object with its keys in insertion order, a \<^verbatim>\<open>list\<close> an array. The rendering as
  indented text is not modelled.
\<close>

datatype json =
    JInt int
  | JFloat real
  | JString string
  | JArray "json list"
  | JObject "(string \<times> json) list"

definition to_dict :: "ProcessInfo \<Rightarrow> json" where
  "to_dict p = JObject
     [ (''pid'', JInt (pid p)),
       (''name'', JString (name p)),
       (''cpu_percent'', JFloat (cpu_percent p)),
       (''memory_percent'', JFloat (memory_percent p)),
       (''status'', JString (status p)),
       (''create_time'', JFloat (create_time p)),
       (''cmdline'', JArray (map JString (cmdline p))) ]"

text \<open>
  What one \<^verbatim>\<open>save_snapshot\<close> call meets: the enumeration, the string
  \<^verbatim>\<open>datetime.now().isoformat()\<close>, whether \<^verbatim>\<open>open(filename, 'w')\<close> fails, and whether
  writing fails after the file was opened. A file holds a whole document, or the
  beginning of one when the write broke off.
\<close>

record save_env =
  save_enumerated :: "proc_item list"
  now_isoformat :: string
  open_error :: "exn option"
  write_error :: "exn option"

datatype stored = Document json | Partial

definition save_snapshot ::
  "save_env \<Rightarrow> string \<Rightarrow> (string \<rightharpoonup> stored) \<Rightarrow> monitor \<Rightarrow> exn option \<times> (string \<rightharpoonup> stored) \<times> monitor" where
  "save_snapshot env filename files m =
     (case get_processes (save_enumerated env) of
        Inl e \<Rightarrow> (Some e, files, m)
      | Inr processes \<Rightarrow>
         (let data = JObject [ (''timestamp'', JString (now_isoformat env)),
                               (''processes'', JArray (map to_dict processes)) ]
          in case open_error env of
               Some e \<Rightarrow> (Some e, files, m)
             | None \<Rightarrow>
                (case write_error env of
                   Some e \<Rightarrow> (Some e, files(filename \<mapsto> Partial), m)
                 | None \<Rightarrow>
                    (None, files(filename \<mapsto> Document data),
                     logger INFO (SnapshotSaved filename) m))))"

text \<open>The names and kinds of the fields of a JSON value, for stating the wire format.\<close>

datatype kind = Integer | Float | String | StringArray | Array | Object

fun is_JString :: "json \<Rightarrow> bool" where
  "is_JString (JString s) = True"
| "is_JString j = False"

fun kind_of :: "json \<Rightarrow> kind" where
  "kind_of (JInt i) = Integer"
| "kind_of (JFloat x) = Float"
| "kind_of (JString s) = String"
| "kind_of (JArray js) = (if list_all is_JString js then StringArray else Array)"
| "kind_of (JObject kvs) = Object"

fun fields_of :: "json \<Rightarrow> (string \<times> kind) list" where
  "fields_of (JObject kvs) = map (\<lambda>(k, v). (k, kind_of v)) kvs"
| "fields_of j = []"

fun elements :: "json \<Rightarrow> json list" where
  "elements (JArray js) = js"
| "elements j = []"

fun field_of :: "json \<Rightarrow> string \<Rightarrow> json option" where
  "field_of (JObject kvs) k = map_of kvs k"
| "field_of j k = None"

definition field_names :: "json \<Rightarrow> string list" where
  "field_names j = map fst (fields_of j)"

text \<open>The entries of the \<^verbatim>\<open>processes\<close> array of a stored document.\<close>

fun entries :: "stored option \<Rightarrow> json list" where
  "entries (Some (Document doc)) =
     (case field_of doc ''processes'' of Some a \<Rightarrow> elements a | None \<Rightarrow> [])"
| "entries s = []"

text \<open>The field names and kinds of one entry as \<^verbatim>\<open>to_dict\<close> writes them.\<close>

definition entry_format :: "(string \<times> kind) list" where
  "entry_format =
     [ (''pid'', Integer), (''name'', String), (''cpu_percent'', Float),
       (''memory_percent'', Float), (''status'', String), (''create_time'', Float),
       (''cmdline'', StringArray) ]"

text \<open>A save that meets one process and no I/O failure, for concrete examples.\<close>

definition one_process :: save_env where
  "one_process =
     \<lparr> save_enumerated =
         [Info \<lparr> info_pid = 1, info_name = Some ''init'', info_cpu_percent = Some 2,
                  info_memory_percent = None, info_status = Some ''sleeping'',
                  info_create_time = Some 5, info_cmdline = Some [''/sbin/init''] \<rparr>],
       now_isoformat = ''2024-05-01T12:00:00.000000'',
       open_error = None, write_error = None \<rparr>"

section \<open>Enumeration\<close>

lemma pid_make_process_info [simp]: "pid (make_process_info info) = info_pid info"
  by (simp add: make_process_info_def)

lemma pid_all_defaults [simp]: "pid (all_defaults k) = k"
  by (simp add: all_defaults_def)

lemma make_process_info_unreadable: "make_process_info (unreadable k) = all_defaults k"
  by (simp add: make_process_info_def unreadable_def all_defaults_def py_or_def)

lemma loop_iter_steps:
  "get_processes_loop (iter_steps host ks) acc = Inr ps \<Longrightarrow>
   ps = acc @ map (\<lambda>k. make_process_info
                     (case host k of Some (Readable info) \<Rightarrow> info\<lparr>info_pid := k\<rparr> | _ \<Rightarrow> unreadable k))
              (filter (\<lambda>k. host k \<noteq> None \<and> host k \<noteq> Some Vanished) ks)"
proof (induction ks arbitrary: acc)
  case Nil
  then show ?case by simp
next
  case (Cons k ks)
  show ?case
  proof (cases "host k")
    case None
    with Cons.prems show ?thesis by (auto dest!: Cons.IH)
  next
    case (Some a)
    with Cons.prems show ?thesis
      by (cases a) (auto simp: try_process_def dest!: Cons.IH)
  qed
qed

lemma loop_iter_steps_steady:
  "\<forall>k\<in>set ks. \<forall>e. host k \<noteq> Some (Broken e) \<Longrightarrow>
   \<exists>ps. get_processes_loop (iter_steps host ks) acc = Inr ps"
proof (induction ks arbitrary: acc)
  case Nil
  show ?case by simp
next
  case (Cons k ks)
  show ?case
  proof (cases "host k")
    case None
    with Cons show ?thesis by simp
  next
    case (Some a)
    with Cons show ?thesis
      by (cases a) (auto simp: try_process_def)
  qed
qed

lemma steady_map_of: "steady table \<Longrightarrow> map_of table k \<noteq> Some (Broken e)"
  by (auto simp: steady_def list_all_iff dest!: map_of_SomeD)

lemma table_keys_defined:
  "k \<in> set (sorted_list_of_set (fst ` set table)) \<Longrightarrow> map_of table k \<noteq> None"
  by (simp add: map_of_eq_None_iff)

lemma filter_remaining:
  "filter (\<lambda>k. map_of table k \<noteq> None \<and> map_of table k \<noteq> Some Vanished)
          (sorted_list_of_set (fst ` set table)) = remaining table"
  unfolding remaining_def
  by (rule filter_cong) (auto simp: map_of_eq_None_iff)

lemma get_processes_process_iter:
  assumes "get_processes (process_iter table) = Inr ps"
  shows "ps = map (\<lambda>k. make_process_info
                     (case map_of table k of
                        Some (Readable info) \<Rightarrow> info\<lparr>info_pid := k\<rparr>
                      | _ \<Rightarrow> unreadable k))
                  (remaining table)"
proof -
  from assms have "get_processes_loop
      (iter_steps (map_of table) (sorted_list_of_set (fst ` set table))) [] = Inr ps"
    by (simp only: get_processes_def process_iter_def)
  from loop_iter_steps [OF this] show ?thesis
    unfolding filter_remaining by simp
qed

lemma distinct_remaining: "distinct (remaining table)"
  by (simp add: remaining_def)

lemma pids_process_iter:
  assumes "get_processes (process_iter table) = Inr ps"
  shows "map pid ps = remaining table"
proof -
  have "map pid ps = map (\<lambda>k. k) (remaining table)"
    unfolding get_processes_process_iter [OF assms] map_map
    by (rule map_cong) (auto simp: unreadable_def split: option.splits answer.splits)
  then show ?thesis by simp
qed

text \<open>
  C4, as stated, fails for a process that denies attribute access: it is not omitted.
  psutil fills its dictionary with \<^verbatim>\<open>None\<close>, the body of the \<^verbatim>\<open>try\<close> raises nothing,
  and \<^verbatim>\<open>get_processes\<close> returns a record for it with the default values. Here pid 7
  has vanished and pid 581 denies access.
\<close>

theorem get_processes_keeps_denied:
  "get_processes (process_iter [(7, Vanished), (581, Denied)]) =
     Inr [\<lparr>pid = 581, name = ''Unknown'', cpu_percent = 0, memory_percent = 0,
           status = ''unknown'', create_time = 0, cmdline = []\<rparr>]"
  by (simp add: process_iter_def get_processes_def try_process_def unreadable_def
      make_process_info_def py_or_def)

text \<open>
  C4, amended. On a host where the generator itself does not raise, \<^verbatim>\<open>get_processes\<close>
  does not raise, whichever processes vanish or deny access. It returns, in ascending
  order of pid, one record for every pid of the host except exactly those whose process
  vanished while it was queried. A process that denies attribute access is kept, as the
  record with its pid and every default; a process that was read is kept as the record
  built from its dictionary. The result may be empty.
\<close>

theorem get_processes_partial_failures:
  assumes "steady table"
  shows "\<exists>ps. get_processes (process_iter table) = Inr ps \<and>
     map pid ps = remaining table \<and>
     (\<forall>p\<in>set ps.
        (map_of table (pid p) = Some Denied \<longrightarrow> p = all_defaults (pid p)) \<and>
        (\<forall>info. map_of table (pid p) = Some (Readable info) \<longrightarrow>
                p = make_process_info (info\<lparr>info_pid := pid p\<rparr>)))"
proof -
  from assms have "\<forall>k\<in>set (sorted_list_of_set (fst ` set table)). \<forall>e. map_of table k \<noteq> Some (Broken e)"
    by (simp add: steady_map_of)
  from loop_iter_steps_steady [OF this, of "[]"] obtain ps where
    ps: "get_processes (process_iter table) = Inr ps"
    by (auto simp: get_processes_def process_iter_def)
  note eq = get_processes_process_iter [OF ps]
  have "(map_of table (pid p) = Some Denied \<longrightarrow> p = all_defaults (pid p)) \<and>
        (\<forall>info. map_of table (pid p) = Some (Readable info) \<longrightarrow>
                p = make_process_info (info\<lparr>info_pid := pid p\<rparr>))" if "p \<in> set ps" for p
  proof -
    from that eq obtain k where k: "p = make_process_info
                     (case map_of table k of
                        Some (Readable info) \<Rightarrow> info\<lparr>info_pid := k\<rparr>
                      | _ \<Rightarrow> unreadable k)"
      by auto
    then have "pid p = k"
      by (auto simp: unreadable_def split: option.splits answer.splits)
    with k show ?thesis
      by (auto simp: make_process_info_unreadable)
  qed
  with ps pids_process_iter [OF ps] show ?thesis by blast
qed

theorem get_processes_partial_failures_witness:
  "steady [(7, Vanished), (581, Denied),
           (1, Readable \<lparr>info_pid = 1, info_name = Some ''init'', info_cpu_percent = Some 2,
                 info_memory_percent = None, info_status = Some ''running'',
                 info_create_time = Some 5, info_cmdline = Some [''/sbin/init'']\<rparr>)] \<and>
   (\<exists>ps. get_processes (process_iter [(7, Vanished), (581, Denied),
           (1, Readable \<lparr>info_pid = 1, info_name = Some ''init'', info_cpu_percent = Some 2,
                 info_memory_percent = None, info_status = Some ''running'',
                 info_create_time = Some 5, info_cmdline = Some [''/sbin/init'']\<rparr>)]) = Inr ps \<and>
      map pid ps = [1, 581] \<and>
      (\<forall>p\<in>set ps. pid p = 581 \<longrightarrow> p = all_defaults 581))"
proof -
  let ?T = "[(7, Vanished), (581, Denied),
           (1, Readable \<lparr>info_pid = 1, info_name = Some ''init'', info_cpu_percent = Some 2,
                 info_memory_percent = None, info_status = Some ''running'',
                 info_create_time = Some 5, info_cmdline = Some [''/sbin/init'']\<rparr>)]"
  have s: "steady ?T" by (simp add: steady_def)
  have r: "remaining ?T = [1, 581]" by (simp add: remaining_def)
  from get_processes_partial_failures [OF s] obtain ps where
    ps: "get_processes (process_iter ?T) = Inr ps" "map pid ps = remaining ?T" and
    d: "\<forall>p\<in>set ps. map_of ?T (pid p) = Some Denied \<longrightarrow> p = all_defaults (pid p)"
    by blast
  from d have "\<forall>p\<in>set ps. pid p = 581 \<longrightarrow> p = all_defaults 581" by auto
  with s ps r show ?thesis by auto
qed

section \<open>Defaulting\<close>

text \<open>
  C9. An attribute the host reports as unavailable (\<^verbatim>\<open>None\<close>) is replaced by its
  default in the record \<^verbatim>\<open>get_processes\<close> returns: name \<^verbatim>\<open>'Unknown'\<close>, status
  \<^verbatim>\<open>'unknown'\<close>, an empty command line, and 0.0 for cpu usage, memory usage and
  creation time.
\<close>

theorem defaults_when_unavailable:
  "name (make_process_info (info\<lparr>info_name := None\<rparr>)) = ''Unknown'' \<and>
   status (make_process_info (info\<lparr>info_status := None\<rparr>)) = ''unknown'' \<and>
   cmdline (make_process_info (info\<lparr>info_cmdline := None\<rparr>)) = [] \<and>
   cpu_percent (make_process_info (info\<lparr>info_cpu_percent := None\<rparr>)) = 0 \<and>
   memory_percent (make_process_info (info\<lparr>info_memory_percent := None\<rparr>)) = 0 \<and>
   create_time (make_process_info (info\<lparr>info_create_time := None\<rparr>)) = 0 \<and>
   get_processes
     [Info \<lparr>info_pid = p, info_name = None, info_cpu_percent = None,
            info_memory_percent = None, info_status = None,
            info_create_time = None, info_cmdline = None\<rparr>]
   = Inr [\<lparr>pid = p, name = ''Unknown'', cpu_percent = 0, memory_percent = 0,
            status = ''unknown'', create_time = 0, cmdline = []\<rparr>]"
  by (simp add: get_processes_def try_process_def make_process_info_def py_or_def)

lemma get_processes_loop_append:
  "get_processes_loop (xs @ ys) acc =
     (case get_processes_loop xs acc of
        Inl e \<Rightarrow> Inl e
      | Inr acc' \<Rightarrow> get_processes_loop ys acc')"
proof (induction xs arbitrary: acc)
  case Nil
  show ?case by simp
next
  case (Cons it rest)
  then show ?case by (cases it) (simp_all add: try_process_def)
qed

lemma make_process_info_empty_name:
  "make_process_info (info\<lparr>info_name := Some ''''\<rparr>) = make_process_info (info\<lparr>info_name := None\<rparr>)"
  by (simp add: make_process_info_def py_or_def truthy_seq_def)

text \<open>
  C10. The default is chosen by truthiness: an attribute that is present but falsy (an
  empty string, an empty list, the float zero) is replaced as well, and one that is
  truthy is kept as it is. A process whose name is the empty string is returned with the
  name \<^verbatim>\<open>'Unknown'\<close>, and the whole result of \<^verbatim>\<open>get_processes\<close> is the same as if the
  name had been unavailable; a process with a non-empty name keeps it, and the result
  differs from that for an unavailable name.
\<close>

theorem defaults_by_truthiness:
  "make_process_info (info\<lparr>info_name := Some ''''\<rparr>) = make_process_info (info\<lparr>info_name := None\<rparr>) \<and>
   name (make_process_info (info\<lparr>info_name := Some ''''\<rparr>)) = ''Unknown'' \<and>
   status (make_process_info (info\<lparr>info_status := Some ''''\<rparr>)) = ''unknown'' \<and>
   cmdline (make_process_info (info\<lparr>info_cmdline := Some []\<rparr>)) = [] \<and>
   cpu_percent (make_process_info (info\<lparr>info_cpu_percent := Some 0\<rparr>)) = 0 \<and>
   memory_percent (make_process_info (info\<lparr>info_memory_percent := Some 0\<rparr>)) = 0 \<and>
   create_time (make_process_info (info\<lparr>info_create_time := Some 0\<rparr>)) = 0 \<and>
   get_processes (before @ Info (info\<lparr>info_name := Some ''''\<rparr>) # after)
     = get_processes (before @ Info (info\<lparr>info_name := None\<rparr>) # after) \<and>
   name (make_process_info (info\<lparr>info_name := Some n\<rparr>)) = (if n = [] then ''Unknown'' else n) \<and>
   status (make_process_info (info\<lparr>info_status := Some s\<rparr>)) = (if s = [] then ''unknown'' else s) \<and>
   cmdline (make_process_info (info\<lparr>info_cmdline := Some c\<rparr>)) = c \<and>
   cpu_percent (make_process_info (info\<lparr>info_cpu_percent := Some x\<rparr>)) = x \<and>
   memory_percent (make_process_info (info\<lparr>info_memory_percent := Some x\<rparr>)) = x \<and>
   create_time (make_process_info (info\<lparr>info_create_time := Some x\<rparr>)) = x \<and>
   py_or truthy (Some v) d = (if truthy v then v else d) \<and>
   py_or truthy None d = d \<and>
   name (make_process_info (info\<lparr>info_name := Some ''sshd''\<rparr>)) = ''sshd'' \<and>
   get_processes [Info (info\<lparr>info_name := Some ''sshd''\<rparr>)]
     \<noteq> get_processes [Info (info\<lparr>info_name := None\<rparr>)]"
proof -
  have "get_processes (before @ Info (info\<lparr>info_name := Some ''''\<rparr>) # after)
     = get_processes (before @ Info (info\<lparr>info_name := None\<rparr>) # after)"
    unfolding get_processes_def get_processes_loop_append
    by (simp add: make_process_info_empty_name try_process_def split: sum.splits)
  moreover have "get_processes [Info (info\<lparr>info_name := Some ''sshd''\<rparr>)]
     \<noteq> get_processes [Info (info\<lparr>info_name := None\<rparr>)]"
    by (simp add: get_processes_def try_process_def make_process_info_def py_or_def truthy_seq_def)
  ultimately show ?thesis
    by (simp add: make_process_info_def py_or_def truthy_seq_def truthy_float_def)
qed

section \<open>Change detection\<close>

lemma map_of_dict_fold:
  "map_of (foldl (\<lambda>d p. AList.update (pid p) p d) d0 ps)
     = map_of d0 ++ map_of (rev (map (\<lambda>p. (pid p, p)) ps))"
proof (induction ps arbitrary: d0)
  case Nil
  show ?case by simp
next
  case (Cons p ps)
  show ?case
    by (simp add: Cons.IH AList.update_conv' fun_eq_iff map_add_def split: option.splits)
qed

lemma map_of_dict_of: "map_of (dict_of ps) = map_of (rev (map (\<lambda>p. (pid p, p)) ps))"
  by (simp add: dict_of_def map_of_dict_fold)

lemma keys_dict_of: "keys (dict_of ps) = pid ` set ps"
proof -
  have "keys (dict_of ps) = dom (map_of (dict_of ps))"
    by (simp add: keys_def dom_map_of_conv_image_fst)
  also have "\<dots> = pid ` set ps"
    by (simp add: map_of_dict_of dom_map_of_conv_image_fst image_image)
  finally show ?thesis .
qed

lemma dict_of_lookup_pid: "map_of (dict_of ps) k = Some p \<Longrightarrow> pid p = k \<and> p \<in> set ps"
  by (auto simp: map_of_dict_of dest!: map_of_SomeD)

lemma keyed_by_pid_lookup: "keyed_by_pid d \<Longrightarrow> map_of d k = Some p \<Longrightarrow> pid p = k"
  by (auto simp: keyed_by_pid_def list_all_iff dest!: map_of_SomeD)

lemma distinct_keys_fold:
  "distinct (map fst d0) \<Longrightarrow> distinct (map fst (foldl (\<lambda>d p. AList.update (pid p) p d) d0 ps))"
  by (induction ps arbitrary: d0) (simp_all add: AList.distinct_update)

lemma keyed_by_pid_dict_of: "keyed_by_pid (dict_of ps)"
proof -
  have "\<And>k p. (k, p) \<in> set (dict_of ps) \<Longrightarrow> pid p = k"
  proof -
    fix k p assume "(k, p) \<in> set (dict_of ps)"
    moreover have "distinct (map fst (dict_of ps))"
      by (simp add: dict_of_def distinct_keys_fold)
    ultimately have "map_of (dict_of ps) k = Some p" by simp
    then show "pid p = k" by (simp add: dict_of_lookup_pid)
  qed
  then show ?thesis by (auto simp: keyed_by_pid_def list_all_iff)
qed

lemma new_loop_run:
  "set ks \<subseteq> keys d \<Longrightarrow>
   new_loop d ks m =
     (None, m\<lparr>trace := trace m @
        map (\<lambda>k. Log INFO (NewProcess (name (the (map_of d k))) (pid (the (map_of d k))))) ks\<rparr>)"
proof (induction ks arbitrary: m)
  case Nil
  show ?case by simp
next
  case (Cons k ks)
  from Cons.prems have "k \<in> dom (map_of d)"
    by (simp add: keys_def dom_map_of_conv_image_fst)
  then obtain p where p: "map_of d k = Some p" by blast
  from Cons.prems have "set ks \<subseteq> keys d" by simp
  from Cons.IH [OF this] p show ?case
    by (simp add: logger_def emit_def)
qed

lemma dead_loop_run:
  "set ks \<subseteq> keys (process_cache m) \<Longrightarrow>
   dead_loop ks m =
     (None, m\<lparr>trace := trace m @
        map (\<lambda>k. Log INFO (ProcessTerminated (name (the (map_of (process_cache m) k)))
                                              (pid (the (map_of (process_cache m) k))))) ks\<rparr>)"
proof (induction ks arbitrary: m)
  case Nil
  show ?case by simp
next
  case (Cons k ks)
  from Cons.prems have "k \<in> dom (map_of (process_cache m))"
    by (simp add: keys_def dom_map_of_conv_image_fst)
  then obtain p where p: "map_of (process_cache m) k = Some p" by blast
  let ?m1 = "logger INFO (ProcessTerminated (name p) (pid p)) m"
  have c: "process_cache ?m1 = process_cache m" by (simp add: logger_def emit_def)
  from Cons.prems c have "set ks \<subseteq> keys (process_cache ?m1)" by simp
  from Cons.IH [OF this] p c show ?case
    by (simp add: logger_def emit_def)
qed

lemma finite_keys: "finite (keys d)"
  by (simp add: keys_def)

lemma set_iterate: "finite A \<Longrightarrow> set (iterate A) = A"
  by (simp add: iterate_def)

lemma distinct_iterate: "distinct (iterate A)"
  by (simp add: iterate_def)

lemma length_iterate: "finite A \<Longrightarrow> length (iterate A) = card A"
  by (simp add: iterate_def)

lemma count_list_distinct_map:
  "distinct ks \<Longrightarrow> inj_on f (set ks) \<Longrightarrow>
   count_list (map f ks) y = (if y \<in> f ` set ks then 1 else 0)"
proof (induction ks)
  case Nil
  show ?case by simp
next
  case (Cons k ks)
  then show ?case by (auto simp: inj_on_def)
qed

lemma detect_changes_run:
  fixes S m
  defines "D \<equiv> dict_of S" and "C \<equiv> process_cache m"
  defines "f \<equiv> \<lambda>k. Log INFO (NewProcess (name (the (map_of D k))) (pid (the (map_of D k))))"
    and "g \<equiv> \<lambda>k. Log INFO (ProcessTerminated (name (the (map_of C k))) (pid (the (map_of C k))))"
  shows "detect_changes S m =
     (None, m\<lparr>trace := trace m @ map f (iterate (keys D - keys C)) @ map g (iterate (keys C - keys D)),
               process_cache := D\<rparr>)"
proof -
  let ?A = "keys D - keys C" and ?B = "keys C - keys D"
  have A: "set (iterate ?A) \<subseteq> keys D" by (simp add: set_iterate finite_keys)
  let ?m1 = "m\<lparr>trace := trace m @ map f (iterate ?A)\<rparr>"
  have n: "new_loop D (iterate ?A) m = (None, ?m1)"
    using new_loop_run [OF A, of m] by (simp add: f_def)
  have B: "set (iterate ?B) \<subseteq> keys (process_cache ?m1)"
    by (simp add: set_iterate finite_keys C_def)
  have d: "dead_loop (iterate ?B) ?m1 = (None, ?m1\<lparr>trace := trace ?m1 @ map g (iterate ?B)\<rparr>)"
    using dead_loop_run [OF B] by (simp add: g_def C_def)
  show ?thesis
    unfolding detect_changes_def Let_def
    by (simp add: n d D_def [symmetric] C_def [symmetric])
qed

text \<open>
  C1. Let the previous cache \<open>C\<close> map every key to a record with that pid, as the empty
  cache and every cache stored by \<^verbatim>\<open>_detect_changes\<close> do. One call of
  \<^verbatim>\<open>_detect_changes\<close> on a snapshot \<open>S\<close> does not raise and changes only the log and
  the cache. Among the lines it logs
  there is exactly one "New process" line for each pid in \<open>ids S - ids C\<close>, carrying the
  name of the record that \<open>S\<close> maps the pid to, and none for any other pid or name;
  exactly one "Process terminated" line for each pid in \<open>ids C - ids S\<close>, carrying the name
  of the record \<open>C\<close> held for it, and none for any other; and no further lines. The new
  cache is the dictionary built from \<open>S\<close>, whatever \<open>C\<close> was: it maps a pid to the last
  record of \<open>S\<close> with that pid.
\<close>

theorem detect_changes_diff:
  assumes inv: "keyed_by_pid (process_cache m)"
  shows "(let C = process_cache m; m' = snd (detect_changes S m); evs = emitted m m' in
     fst (detect_changes S m) = None \<and>
     m' = m\<lparr>trace := trace m @ evs, process_cache := dict_of S\<rparr> \<and>
     (\<forall>i n. count_list evs (Log INFO (NewProcess n i)) =
        (if i \<in> pid ` set S - keys C \<and> map_option name (map_of (dict_of S) i) = Some n
         then 1 else 0)) \<and>
     (\<forall>i n. count_list evs (Log INFO (ProcessTerminated n i)) =
        (if i \<in> keys C - pid ` set S \<and> map_option name (map_of C i) = Some n
         then 1 else 0)) \<and>
     length evs = card (pid ` set S - keys C) + card (keys C - pid ` set S) \<and>
     map_of (dict_of S) = map_of (rev (map (\<lambda>p. (pid p, p)) S)))"
proof -
  define D where "D = dict_of S"
  define C where "C = process_cache m"
  define f where "f = (\<lambda>k. Log INFO (NewProcess (name (the (map_of D k))) (pid (the (map_of D k)))))"
  define g where "g = (\<lambda>k. Log INFO (ProcessTerminated (name (the (map_of C k))) (pid (the (map_of C k)))))"
  define A where "A = keys D - keys C"
  define B where "B = keys C - keys D"
  define evs where "evs = map f (iterate A) @ map g (iterate B)"
  have run: "detect_changes S m = (None, m\<lparr>trace := trace m @ evs, process_cache := D\<rparr>)"
    using detect_changes_run [of S m]
    by (simp add: D_def C_def f_def g_def A_def B_def evs_def)
  have em: "emitted m (snd (detect_changes S m)) = evs"
    by (simp add: run emitted_def)
  have finA: "finite A" and finB: "finite B"
    by (simp_all add: A_def B_def finite_keys)
  have kD: "keys D = pid ` set S" by (simp add: D_def keys_dict_of)
  have inD: "\<exists>p. map_of D k = Some p \<and> pid p = k" if "k \<in> A" for k
  proof -
    from that have "k \<in> dom (map_of D)"
      by (simp add: A_def keys_def dom_map_of_conv_image_fst)
    then obtain p where "map_of D k = Some p" by blast
    then show ?thesis using dict_of_lookup_pid [of S k p] by (simp add: D_def)
  qed
  have inC: "\<exists>p. map_of C k = Some p \<and> pid p = k" if "k \<in> B" for k
  proof -
    from that have "k \<in> dom (map_of C)"
      by (simp add: B_def keys_def dom_map_of_conv_image_fst)
    then obtain p where "map_of C k = Some p" by blast
    then show ?thesis using keyed_by_pid_lookup [OF inv, of k p] by (simp add: C_def)
  qed
  have f_eq: "f k = Log INFO (NewProcess (name (the (map_of D k))) k)" if "k \<in> A" for k
    using inD [OF that] by (auto simp: f_def)
  have g_eq: "g k = Log INFO (ProcessTerminated (name (the (map_of C k))) k)" if "k \<in> B" for k
    using inC [OF that] by (auto simp: g_def)
  have inj_f: "inj_on f (set (iterate A))"
    by (auto simp: inj_on_def set_iterate finA f_eq)
  have inj_g: "inj_on g (set (iterate B))"
    by (auto simp: inj_on_def set_iterate finB g_eq)
  have cnt_new: "count_list evs (Log INFO (NewProcess n i)) =
        (if i \<in> A \<and> map_option name (map_of D i) = Some n then 1 else 0)" for i n
  proof -
    have "Log INFO (NewProcess n i) \<notin> set (map g (iterate B))"
      by (auto simp: g_def)
    then have "count_list evs (Log INFO (NewProcess n i)) =
        count_list (map f (iterate A)) (Log INFO (NewProcess n i))"
      by (simp add: evs_def)
    also have "\<dots> = (if Log INFO (NewProcess n i) \<in> f ` A then 1 else 0)"
      using count_list_distinct_map [OF distinct_iterate inj_f] by (simp add: set_iterate finA)
    also have "Log INFO (NewProcess n i) \<in> f ` A \<longleftrightarrow>
        i \<in> A \<and> map_option name (map_of D i) = Some n"
    proof
      assume "Log INFO (NewProcess n i) \<in> f ` A"
      then obtain k where k: "k \<in> A" "f k = Log INFO (NewProcess n i)" by auto
      with f_eq [OF k(1)] inD [OF k(1)] show "i \<in> A \<and> map_option name (map_of D i) = Some n"
        by auto
    next
      assume a: "i \<in> A \<and> map_option name (map_of D i) = Some n"
      then have "f i = Log INFO (NewProcess n i)"
        using f_eq [of i] inD [of i] by auto
      with a show "Log INFO (NewProcess n i) \<in> f ` A" by (metis imageI)
    qed
    finally show ?thesis .
  qed
  have cnt_dead: "count_list evs (Log INFO (ProcessTerminated n i)) =
        (if i \<in> B \<and> map_option name (map_of C i) = Some n then 1 else 0)" for i n
  proof -
    have "Log INFO (ProcessTerminated n i) \<notin> set (map f (iterate A))"
      by (auto simp: f_def)
    then have "count_list evs (Log INFO (ProcessTerminated n i)) =
        count_list (map g (iterate B)) (Log INFO (ProcessTerminated n i))"
      by (simp add: evs_def)
    also have "\<dots> = (if Log INFO (ProcessTerminated n i) \<in> g ` B then 1 else 0)"
      using count_list_distinct_map [OF distinct_iterate inj_g] by (simp add: set_iterate finB)
    also have "Log INFO (ProcessTerminated n i) \<in> g ` B \<longleftrightarrow>
        i \<in> B \<and> map_option name (map_of C i) = Some n"
    proof
      assume "Log INFO (ProcessTerminated n i) \<in> g ` B"
      then obtain k where k: "k \<in> B" "g k = Log INFO (ProcessTerminated n i)" by auto
      with g_eq [OF k(1)] inC [OF k(1)] show "i \<in> B \<and> map_option name (map_of C i) = Some n"
        by auto
    next
      assume a: "i \<in> B \<and> map_option name (map_of C i) = Some n"
      then have "g i = Log INFO (ProcessTerminated n i)"
        using g_eq [of i] inC [of i] by auto
      with a show "Log INFO (ProcessTerminated n i) \<in> g ` B" by (metis imageI)
    qed
    finally show ?thesis .
  qed
  have len: "length evs = card A + card B"
    by (simp add: evs_def length_iterate finA finB)
  show ?thesis
    unfolding Let_def em
    using cnt_new cnt_dead len
    by (simp add: run A_def B_def kD C_def [symmetric] D_def [symmetric] map_of_dict_of [of S, folded D_def])
qed

theorem detect_changes_diff_witness:
  "keyed_by_pid [(1, sample 1 ''A''), (2, sample 2 ''B'')] \<and>
   (let m = init\<lparr>process_cache := [(1, sample 1 ''A''), (2, sample 2 ''B'')]\<rparr>;
        m' = snd (detect_changes [sample 2 ''B'', sample 3 ''C''] m);
        evs = emitted m m'
    in fst (detect_changes [sample 2 ''B'', sample 3 ''C''] m) = None \<and>
       count_list evs (Log INFO (NewProcess ''C'' 3)) = 1 \<and>
       count_list evs (Log INFO (ProcessTerminated ''A'' 1)) = 1 \<and>
       length evs = 2 \<and>
       process_cache m' = [(2, sample 2 ''B''), (3, sample 3 ''C'')])"
proof -
  let ?m = "init\<lparr>process_cache := [(1, sample 1 ''A''), (2, sample 2 ''B'')]\<rparr>"
  let ?S = "[sample 2 ''B'', sample 3 ''C'']"
  have h: "keyed_by_pid (process_cache ?m)"
    by (simp add: keyed_by_pid_def sample_def)
  have D: "dict_of ?S = [(2, sample 2 ''B''), (3, sample 3 ''C'')]"
    by (simp add: dict_of_def sample_def)
  have A: "pid ` set ?S - keys (process_cache ?m) = {3}"
    by (auto simp: keys_def sample_def)
  have B: "keys (process_cache ?m) - pid ` set ?S = {1}"
    by (auto simp: keys_def sample_def)
  note T = detect_changes_diff [OF h, of ?S, unfolded Let_def A B D]
  note t1 = T [THEN conjunct1]
  note T2 = T [THEN conjunct2]
  note eq = T2 [THEN conjunct1]
  note T3 = T2 [THEN conjunct2]
  note n = T3 [THEN conjunct1, rule_format, of "''C''" 3]
  note T4 = T3 [THEN conjunct2]
  note d = T4 [THEN conjunct1, rule_format, of "''A''" 1]
  note t4 = T4 [THEN conjunct2, THEN conjunct1]
  from n have t2: "count_list (emitted ?m (snd (detect_changes ?S ?m))) (Log INFO (NewProcess ''C'' 3)) = 1"
    by (simp add: sample_def)
  from d have t3: "count_list (emitted ?m (snd (detect_changes ?S ?m))) (Log INFO (ProcessTerminated ''A'' 1)) = 1"
    by (simp add: sample_def)
  have t5: "process_cache (snd (detect_changes ?S ?m)) = [(2, sample 2 ''B''), (3, sample 3 ''C'')]"
    by (subst eq) simp
  from h t1 t2 t3 t4 t5 show ?thesis by (simp add: Let_def)
qed

section \<open>The polling loop\<close>

lemma emit_fields:
  "trace (emit e m) = trace m @ [e]"
  "callbacks (emit e m) = callbacks m"
  "update_interval (emit e m) = update_interval m"
  "process_cache (emit e m) = process_cache m"
  by (simp_all add: emit_def)

lemma logger_fields:
  "trace (logger l msg m) = trace m @ [Log l msg]"
  "callbacks (logger l msg m) = callbacks m"
  "update_interval (logger l msg m) = update_interval m"
  "process_cache (logger l msg m) = process_cache m"
  by (simp_all add: logger_def emit_def)

lemma apply_call_fields:
  "trace (apply_call c m) = trace m"
  "update_interval (apply_call c m) = update_interval m"
  "process_cache (apply_call c m) = process_cache m"
  by (cases c; simp add: add_callback_def remove_callback_def split: option.splits)+

lemma fold_apply_call_fields:
  "trace (fold apply_call cs m) = trace m \<and>
   update_interval (fold apply_call cs m) = update_interval m \<and>
   process_cache (fold apply_call cs m) = process_cache m"
  by (induction cs arbitrary: m) (simp_all add: apply_call_fields)

lemma hands_out_refl: "hands_out P m m"
  by (simp add: hands_out_def)

lemma hands_out_trans: "hands_out P m m1 \<Longrightarrow> hands_out P m1 m2 \<Longrightarrow> hands_out P m m2"
  unfolding hands_out_def by (elim exE conjE) (rule_tac x = "evs @ evsa" in exI, auto)

lemma hands_out_weaken: "hands_out P m m' \<Longrightarrow> (\<And>s. P s \<Longrightarrow> Q s) \<Longrightarrow> hands_out Q m m'"
  unfolding hands_out_def by blast

lemma hands_out_emitted:
  "hands_out P m m' \<Longrightarrow> Invoke h s \<in> set (emitted m m') \<Longrightarrow> P s"
  unfolding hands_out_def emitted_def by auto

lemma hands_out_logger: "hands_out P m (logger l msg m)"
  unfolding hands_out_def by (rule exI [of _ "[Log l msg]"]) (simp add: logger_fields)

lemma hands_out_time_sleep: "hands_out P m (snd (time_sleep m))"
  unfolding hands_out_def time_sleep_def Let_def
  by (cases "update_interval m")
     (auto simp: emit_fields intro: exI [of _ "[Sleep (seconds (update_interval m))]"])

lemma hands_out_detect_changes: "hands_out P m (snd (detect_changes ps m))"
  unfolding hands_out_def
  by (subst detect_changes_run) auto

lemma time_sleep_interval: "update_interval (snd (time_sleep m)) = update_interval m"
  by (cases "update_interval m") (simp_all add: time_sleep_def Let_def emit_fields)


lemma notify_effects:
  "notify fuel i ps m = Some m' \<Longrightarrow>
   update_interval m' = update_interval m \<and> process_cache m' = process_cache m \<and>
   hands_out (\<lambda>s. s = ps) m m'"
proof (induction fuel arbitrary: i m)
  case 0
  then show ?case by simp
next
  case (Suc fuel)
  show ?case
  proof (cases "i < length (callbacks m)")
    case False
    with Suc.prems show ?thesis by (simp add: hands_out_refl)
  next
    case True
    define cb where "cb = callbacks m ! i"
    define m1 where "m1 = emit (Invoke (handler_id cb) ps) m"
    define m2 where "m2 = fold apply_call (fst (run cb ps)) m1"
    define m3 where "m3 = (case snd (run cb ps) of
                     None \<Rightarrow> m2
                   | Some e \<Rightarrow> logger ERROR (CallbackError e) m2)"
    from Suc.prems True have "notify fuel (i + 1) ps m3 = Some m'"
      unfolding m3_def m2_def m1_def cb_def by (simp add: Let_def)
    from Suc.IH [OF this] have
      a: "update_interval m' = update_interval m3" and b: "process_cache m' = process_cache m3"
      and c: "hands_out (\<lambda>s. s = ps) m3 m'" by simp_all
    have f2: "trace m2 = trace m @ [Invoke (handler_id cb) ps]"
      "update_interval m2 = update_interval m" "process_cache m2 = process_cache m"
      using fold_apply_call_fields [of "fst (run cb ps)" m1]
      by (simp_all add: m2_def m1_def emit_fields)
    have f3: "update_interval m3 = update_interval m" "process_cache m3 = process_cache m"
      using f2 by (simp_all add: m3_def logger_fields split: option.splits)
    have "hands_out (\<lambda>s. s = ps) m m3"
      unfolding hands_out_def
      by (cases "snd (run cb ps)") (auto simp: m3_def f2 logger_fields)
    from hands_out_trans [OF this c] a b f3 show ?thesis by simp
  qed
qed








lemma emitted_extend [simp]:
  "emitted m (m\<lparr>trace := trace m @ evs, process_cache := c\<rparr>) = evs"
  by (simp add: emitted_def)

lemma emitted_trace [simp]:
  "emitted m (m\<lparr>trace := trace m @ evs\<rparr>) = evs"
  by (simp add: emitted_def)




lemma cycle_hands_out:
  assumes c: "cycle fuel items m = Some (r, m')"
  shows "hands_out (\<lambda>s. get_processes items = Inr s) m m'"
proof (cases "get_processes items")
  case (Inl e)
  with c have "m' = snd (time_sleep (logger ERROR (MonitorLoopError e) m))"
    by (auto simp: cycle_def try_body_def)
  then show ?thesis
    using hands_out_trans [OF hands_out_logger hands_out_time_sleep] by simp
next
  case (Inr ps)
  obtain m1 where dc: "detect_changes ps m = (None, m1)"
    using detect_changes_run [of ps m] by simp
  have h1: "hands_out (\<lambda>s. get_processes items = Inr s) m m1"
    using hands_out_detect_changes [of _ m ps] dc by simp
  from c Inr dc obtain m2 where n: "notify fuel 0 ps m1 = Some m2"
    by (auto simp: cycle_def try_body_def split: option.splits)
  from notify_effects [OF n] have "hands_out (\<lambda>s. s = ps) m1 m2" by simp
  then have h2: "hands_out (\<lambda>s. get_processes items = Inr s) m1 m2"
    by (rule hands_out_weaken) (simp add: Inr)
  note h12 = hands_out_trans [OF h1 h2]
  show ?thesis
  proof (cases "fst (time_sleep m2)")
    case None
    with c Inr dc n have "m' = snd (time_sleep m2)"
      by (cases "time_sleep m2") (auto simp: cycle_def try_body_def)
    then show ?thesis
      using hands_out_trans [OF h12 hands_out_time_sleep] by simp
  next
    case (Some e)
    with c Inr dc n have "m' = snd (time_sleep (logger ERROR (MonitorLoopError e) (snd (time_sleep m2))))"
      by (cases "time_sleep m2") (auto simp: cycle_def try_body_def)
    then show ?thesis
      using hands_out_trans [OF hands_out_trans [OF hands_out_trans [OF h12 hands_out_time_sleep]
          hands_out_logger] hands_out_time_sleep]
      by simp
  qed
qed




text \<open>
  An interval that \<^verbatim>\<open>time.sleep\<close> rejects ends the loop in its first iteration: the
  sleep of the \<^verbatim>\<open>try\<close> raises, and so does the sleep of the handler.
\<close>

lemma rejected_interval_ends_loop:
  "map_option fst (monitor_loop 1 [quiet] (init\<lparr>update_interval := Finite (10 ^ 30)\<rparr>))
     = Some (Died OverflowError) \<and>
   map_option fst (monitor_loop 1 [quiet] (init\<lparr>update_interval := PosInf\<rparr>))
     = Some (Died OverflowError) \<and>
   map_option fst (monitor_loop 1 [quiet] (init\<lparr>update_interval := Finite (- 1)\<rparr>))
     = Some (Died ValueError)"
  by (simp add: quiet_def init_def cycle_def try_body_def process_iter_def get_processes_def
      try_process_def detect_changes_run time_sleep_def logger_def emit_def)






text \<open>
  C8. The pids of a snapshot returned by \<^verbatim>\<open>get_processes\<close> are pairwise distinct, and
  so are those of every snapshot an iteration of the loop hands to a handler, which is
  the list \<^verbatim>\<open>get_processes\<close> returned in that iteration (the same list is passed to
  \<^verbatim>\<open>_detect_changes\<close>). \<^verbatim>\<open>get_processes\<close> removes no duplicates itself: it builds one
  record for each process the generator yields and copies its pid, and
  \<^verbatim>\<open>psutil.process_iter\<close> visits every pid of the host once.
\<close>

theorem snapshot_pids_distinct:
  "(get_processes (process_iter table) = Inr ps \<longrightarrow> distinct (map pid ps)) \<and>
   (cycle fuel (process_iter table) m = Some (r, m') \<and> Invoke h s \<in> set (emitted m m') \<longrightarrow>
      get_processes (process_iter table) = Inr s \<and> distinct (map pid s))"
proof -
  have 1: "distinct (map pid ps)" if "get_processes (process_iter table) = Inr ps" for ps
    using pids_process_iter [OF that] by (simp add: distinct_remaining)
  have 2: "get_processes (process_iter table) = Inr s \<and> distinct (map pid s)"
    if "cycle fuel (process_iter table) m = Some (r, m')" "Invoke h s \<in> set (emitted m m')"
  proof -
    from hands_out_emitted [OF cycle_hands_out [OF that(1)] that(2)]
    have "get_processes (process_iter table) = Inr s" .
    with 1 show ?thesis by simp
  qed
  from 1 2 show ?thesis by blast
qed

theorem snapshot_pids_distinct_witness:
  "get_processes (process_iter [(7, Denied), (1, Readable (unreadable 1)), (7, Vanished), (3, Vanished)])
     = Inr [all_defaults 1, all_defaults 7] \<and>
   distinct (map pid [all_defaults 1, all_defaults 7])"
proof -
  have g: "get_processes (process_iter [(7, Denied), (1, Readable (unreadable 1)), (7, Vanished), (3, Vanished)])
     = Inr [all_defaults 1, all_defaults 7]"
    by code_simp
  from snapshot_pids_distinct [where table = "[(7, Denied), (1, Readable (unreadable 1)), (7, Vanished), (3, Vanished)]"
      and ps = "[all_defaults 1, all_defaults 7]"] g
  have "distinct (map pid [all_defaults 1, all_defaults 7])" by blast
  with g show ?thesis by simp
qed

section \<open>Termination of a process\<close>




section \<open>Lifecycle\<close>

lemma map_filter_snoc:
  "List.map_filter f (xs @ [x]) =
     List.map_filter f xs @ (case f x of None \<Rightarrow> [] | Some y \<Rightarrow> [y])"
  by (induction xs) (simp_all split: option.splits)

lemma live_fields [simp]:
  "live (m\<lparr>monitoring := a\<rparr>) = live m"
  "live (m\<lparr>stop_event := b\<rparr>) = live m"
  "live (m\<lparr>monitor_thread := c\<rparr>) = live m"
  by (simp_all add: live_def)

lemma threads_started_fields [simp]:
  "threads_started (m\<lparr>monitoring := a\<rparr>) = threads_started m"
  "threads_started (m\<lparr>stop_event := b\<rparr>) = threads_started m"
  "threads_started (m\<lparr>monitor_thread := c\<rparr>) = threads_started m"
  by (simp_all add: threads_started_def)

lemma live_emit_start:
  "ThreadExit t \<notin> set (trace m) \<Longrightarrow> live (emit (ThreadStart t) m) = live m @ [t]"
  by (simp add: live_def emit_def map_filter_snoc)

lemma live_emit_exit:
  "live (emit (ThreadExit t) m) = filter (\<lambda>x. x \<noteq> t) (live m)"
  by (auto simp: live_def emit_def map_filter_snoc intro: filter_cong)

lemma live_emit_log: "live (emit (Log l msg) m) = live m"
  by (simp add: live_def emit_def map_filter_snoc)

lemma live_emit_join: "live (emit (ThreadJoin t x) m) = live m"
  by (simp add: live_def emit_def map_filter_snoc)

text \<open>What holds along a history in which every join came back in time.\<close>

lemma clean_history:
  "list_all joined acts \<Longrightarrow>
   (monitoring (history acts) \<longrightarrow>
      \<not> stop_event (history acts) \<and>
      (\<exists>t. monitor_thread (history acts) = Some t \<and> live (history acts) = [t])) \<and>
   (\<not> monitoring (history acts) \<longrightarrow> live (history acts) = []) \<and>
   (\<forall>t. ThreadExit t \<in> set (trace (history acts)) \<longrightarrow> t < threads_started (history acts)) \<and>
   (\<forall>t. ThreadStart t \<in> set (trace (history acts)) \<longrightarrow> t < threads_started (history acts))"
proof (induction acts rule: rev_induct)
  case Nil
  show ?case by (simp add: history_def init_def live_def threads_started_def)
next
  case (snoc a acts)
  define s where "s = history acts"
  have h: "history (acts @ [b]) = step b s" for b by (simp add: history_def s_def)
  from snoc have J:
    "monitoring s \<longrightarrow> \<not> stop_event s \<and> (\<exists>t. monitor_thread s = Some t \<and> live s = [t])"
    "\<not> monitoring s \<longrightarrow> live s = []"
    "\<forall>t. ThreadExit t \<in> set (trace s) \<longrightarrow> t < threads_started s"
    "\<forall>t. ThreadStart t \<in> set (trace s) \<longrightarrow> t < threads_started s"
    by (simp_all add: s_def)
  show ?case
  proof (cases a)
    case Start
    show ?thesis
    proof (cases "monitoring s")
      case True
      with J show ?thesis unfolding h Start by (simp add: start_monitoring_def)
    next
      case False
      from J(3) have ne: "ThreadExit (threads_started s) \<notin> set (trace s)" by auto
      have l: "live (start_monitoring s) = live s @ [threads_started s]"
        using False ne
        by (simp add: start_monitoring_def Let_def logger_def live_emit_log live_emit_start)
      have n: "threads_started (start_monitoring s) = Suc (threads_started s)"
        using False
        by (simp add: start_monitoring_def Let_def logger_def emit_def threads_started_def)
      have t: "trace (start_monitoring s) =
          trace s @ [ThreadStart (threads_started s), Log INFO MonitoringStarted]"
        using False by (simp add: start_monitoring_def Let_def logger_def emit_def)
      have f: "monitoring (start_monitoring s)" "\<not> stop_event (start_monitoring s)"
        "monitor_thread (start_monitoring s) = Some (threads_started s)"
        using False by (simp_all add: start_monitoring_def Let_def logger_def emit_def)
      from J False l n t f show ?thesis unfolding h Start step.simps
        by (auto simp: less_Suc_eq)
    qed
  next
    case (Stop in_time)
    with snoc.prems have it: "in_time" by simp
    show ?thesis
    proof (cases "monitoring s")
      case False
      with J show ?thesis unfolding h Stop by (simp add: stop_monitoring_def)
    next
      case True
      with J obtain t where t: "monitor_thread s = Some t" "live s = [t]" by blast
      define m2 where "m2 = s\<lparr>monitoring := False, stop_event := True\<rparr>"
      have e: "stop_monitoring in_time s =
          logger INFO MonitoringStopped (emit (ThreadJoin t 2) (emit (ThreadExit t) m2))"
        using True t it
        by (simp add: stop_monitoring_def Let_def thread_join_def loop_test_def m2_def)
      have l: "live (stop_monitoring in_time s) = []"
        unfolding e logger_def
        by (simp add: live_emit_log live_emit_join live_emit_exit m2_def t)
      have tr: "trace (stop_monitoring in_time s) =
          trace s @ [ThreadExit t, ThreadJoin t 2, Log INFO MonitoringStopped]"
        unfolding e by (simp add: logger_def emit_def m2_def)
      have n: "threads_started (stop_monitoring in_time s) = threads_started s"
        unfolding threads_started_def tr by simp
      have f: "\<not> monitoring (stop_monitoring in_time s)"
        unfolding e by (simp add: logger_def emit_def m2_def)
      from t(2) have "t \<in> set (live s)" by simp
      then have "ThreadStart t \<in> set (trace s)"
        by (auto simp: live_def List.map_filter_def split: effect.splits elim!: started_id.elims)
      with J(4) have lt: "t < threads_started s" by blast
      from J l tr n f lt show ?thesis unfolding h Stop step.simps by auto
    qed
  next
    case (Test t)
    have "loop_test t s = s"
      using J by (cases "monitoring s") (auto simp: loop_test_def)
    with J show ?thesis unfolding h Test by simp
  qed
qed

text \<open>
  C7, as stated, fails in a Running state that was reached through a stop whose join
  gave up: after start, a stop whose thread does not come to its loop condition within
  the two seconds, and another start, the monitor is Running, a further
  \<^verbatim>\<open>start_monitoring\<close> changes nothing, and two polling threads are alive: the second
  start has cleared the stop flag, so the first thread goes on polling when it reads it.
\<close>

theorem restart_after_late_join_two_threads:
  "monitoring (history [Start, Stop False, Start]) \<and>
   start_monitoring (history [Start, Stop False, Start]) = history [Start, Stop False, Start] \<and>
   live (history [Start, Stop False, Start]) = [0, 1] \<and>
   loop_test 0 (history [Start, Stop False, Start]) = history [Start, Stop False, Start] \<and>
   loop_test 1 (history [Start, Stop False, Start]) = history [Start, Stop False, Start]"
  by (simp add: history_def init_def start_monitoring_def stop_monitoring_def thread_join_def
      loop_test_def Let_def logger_def emit_def threads_started_def live_def)

text \<open>
  C7, amended. \<^verbatim>\<open>start_monitoring\<close> and \<^verbatim>\<open>stop_monitoring\<close> are idempotent. Starting a
  monitor that is running, and stopping one that is stopped, change nothing: no thread
  is started, the polling threads alive stay the same, nothing is logged, no error
  arises. Otherwise starting sets the flag, clears the stop event and starts exactly
  one thread, and stopping clears the flag and sets the stop event without starting a
  thread. As long as every join of an earlier stop came back within its two seconds,
  exactly one polling thread is alive while the monitor is Running, none while it is
  Stopped, and exactly one after a further start. Two calls of \<^verbatim>\<open>start_monitoring\<close> on a
  new monitor leave one polling thread.
\<close>

theorem start_stop_lifecycle:
  "start_monitoring (start_monitoring m) = start_monitoring m \<and>
   stop_monitoring in_time' (stop_monitoring in_time m) = stop_monitoring in_time m \<and>
   (monitoring m \<longrightarrow> start_monitoring m = m) \<and>
   (\<not> monitoring m \<longrightarrow> stop_monitoring in_time m = m) \<and>
   (\<not> monitoring m \<longrightarrow>
      monitoring (start_monitoring m) \<and> \<not> stop_event (start_monitoring m) \<and>
      monitor_thread (start_monitoring m) = Some (threads_started m) \<and>
      threads_started (start_monitoring m) = threads_started m + 1) \<and>
   (monitoring m \<longrightarrow>
      \<not> monitoring (stop_monitoring in_time m) \<and> stop_event (stop_monitoring in_time m) \<and>
      threads_started (stop_monitoring in_time m) = threads_started m) \<and>
   threads_started (start_monitoring (start_monitoring m)) = threads_started (start_monitoring m) \<and>
   live (start_monitoring (start_monitoring m)) = live (start_monitoring m) \<and>
   (list_all joined acts \<longrightarrow>
      length (live (history acts)) = (if monitoring (history acts) then 1 else 0) \<and>
      length (live (start_monitoring (history acts))) = 1) \<and>
   live (start_monitoring (start_monitoring init)) = [0]"
proof -
  have flags:
   "start_monitoring (start_monitoring m) = start_monitoring m \<and>
   stop_monitoring in_time' (stop_monitoring in_time m) = stop_monitoring in_time m \<and>
   (monitoring m \<longrightarrow> start_monitoring m = m) \<and>
   (\<not> monitoring m \<longrightarrow> stop_monitoring in_time m = m) \<and>
   (\<not> monitoring m \<longrightarrow>
      monitoring (start_monitoring m) \<and> \<not> stop_event (start_monitoring m) \<and>
      monitor_thread (start_monitoring m) = Some (threads_started m) \<and>
      threads_started (start_monitoring m) = threads_started m + 1) \<and>
   (monitoring m \<longrightarrow>
      \<not> monitoring (stop_monitoring in_time m) \<and> stop_event (stop_monitoring in_time m) \<and>
      threads_started (stop_monitoring in_time m) = threads_started m)"
    by (simp add: start_monitoring_def stop_monitoring_def thread_join_def loop_test_def
        Let_def logger_def emit_def threads_started_def split: option.splits)
  then have idem: "start_monitoring (start_monitoring m) = start_monitoring m" by blast
  have clean: "length (live (history acts)) = (if monitoring (history acts) then 1 else 0) \<and>
      length (live (start_monitoring (history acts))) = 1" if c: "list_all joined acts"
  proof -
    from clean_history [OF c] have a: "length (live (history acts)) = (if monitoring (history acts) then 1 else 0)"
      by auto
    have "list_all joined (acts @ [Start])" using c by simp
    from clean_history [OF this]
    have "length (live (history (acts @ [Start]))) = (if monitoring (history (acts @ [Start])) then 1 else 0)"
      by auto
    moreover have "history (acts @ [Start]) = start_monitoring (history acts)"
      by (simp add: history_def)
    moreover have "monitoring (start_monitoring (history acts))"
      by (simp add: start_monitoring_def Let_def logger_def emit_def)
    ultimately have "length (live (start_monitoring (history acts))) = 1" by simp
    with a show ?thesis by simp
  qed
  have one: "live (start_monitoring (start_monitoring init)) = [0]"
    by (simp add: init_def start_monitoring_def Let_def logger_def emit_def threads_started_def
        live_def)
  from flags idem clean one show ?thesis by simp
qed

theorem start_stop_lifecycle_witness:
  "\<not> monitoring init \<and> stop_monitoring True init = init \<and> monitoring (start_monitoring init) \<and>
   threads_started (start_monitoring init) = 1 \<and>
   start_monitoring (start_monitoring init) = start_monitoring init \<and>
   \<not> monitoring (stop_monitoring True (start_monitoring init)) \<and>
   stop_event (stop_monitoring True (start_monitoring init)) \<and>
   stop_monitoring False (stop_monitoring True (start_monitoring init))
     = stop_monitoring True (start_monitoring init) \<and>
   list_all joined [Start, Start, Stop True, Test 0, Start, Start] \<and>
   monitoring (history [Start, Start, Stop True, Test 0, Start, Start]) \<and>
   length (live (history [Start, Start, Stop True, Test 0, Start, Start])) = 1"
proof -
  have a: "\<not> monitoring init" by (simp add: init_def)
  have t0: "threads_started init = 0" by (simp add: threads_started_def init_def)
  note T = start_stop_lifecycle [of init True True]
  from T a have b: "monitoring (start_monitoring init)" by blast
  note U = start_stop_lifecycle [of "start_monitoring init" False True]
  have j: "list_all joined [Start, Start, Stop True, Test 0, Start, Start]" by simp
  have mo: "monitoring (history [Start, Start, Stop True, Test 0, Start, Start])"
    by (simp add: history_def start_monitoring_def Let_def logger_def emit_def)
  note V = start_stop_lifecycle [where acts = "[Start, Start, Stop True, Test 0, Start, Start]"]
  from V j mo have l: "length (live (history [Start, Start, Stop True, Test 0, Start, Start])) = 1"
    by simp
  from T a t0 U b j mo l show ?thesis by simp
qed

section \<open>Snapshot document\<close>

text \<open>
  C3, as stated, fails on the name of the first field: \<^verbatim>\<open>to_dict\<close> writes the key
  \<^verbatim>\<open>'pid'\<close>, and no entry of a saved document has a field \<^verbatim>\<open>'id'\<close>.
\<close>

theorem save_snapshot_entry_has_no_id:
  "fst (save_snapshot one_process ''snap.json'' Map.empty init) = None \<and>
   map field_names (entries (fst (snd (save_snapshot one_process ''snap.json'' Map.empty init)) ''snap.json''))
     = [ [''pid'', ''name'', ''cpu_percent'', ''memory_percent'', ''status'',
           ''create_time'', ''cmdline''] ] \<and>
   ''id'' \<notin> set (concat (map field_names
     (entries (fst (snd (save_snapshot one_process ''snap.json'' Map.empty init)) ''snap.json''))))"
  by (simp add: save_snapshot_def one_process_def get_processes_def try_process_def
      make_process_info_def py_or_def truthy_seq_def truthy_float_def to_dict_def field_names_def)

lemma fields_to_dict: "fields_of (to_dict p) = entry_format"
  by (simp add: to_dict_def entry_format_def list_all_iff)

text \<open>
  C3, amended. When \<^verbatim>\<open>save_snapshot\<close> returns, the file holds a document with exactly
  the two fields \<^verbatim>\<open>timestamp\<close> (the ISO string of the clock) and \<^verbatim>\<open>processes\<close>, an
  array with one entry per record of the single \<^verbatim>\<open>get_processes\<close> call, in order. Each
  entry has exactly the fields \<^verbatim>\<open>pid\<close> (integer, the pid of the record), \<^verbatim>\<open>name\<close>
  (string), \<^verbatim>\<open>cpu_percent\<close> (float), \<^verbatim>\<open>memory_percent\<close> (float), \<^verbatim>\<open>status\<close> (string),
  \<^verbatim>\<open>create_time\<close> (float) and \<^verbatim>\<open>cmdline\<close> (array of strings).
\<close>

theorem save_snapshot_document:
  assumes "fst (save_snapshot env filename files m) = None"
  shows "\<exists>ps. get_processes (save_enumerated env) = Inr ps \<and>
     fst (snd (save_snapshot env filename files m)) =
       files(filename \<mapsto> Document (JObject
         [ (''timestamp'', JString (now_isoformat env)),
           (''processes'', JArray (map to_dict ps)) ])) \<and>
     entries (fst (snd (save_snapshot env filename files m)) filename) = map to_dict ps \<and>
     map fields_of (map to_dict ps) = replicate (length ps) entry_format \<and>
     map (\<lambda>j. field_of j ''pid'') (map to_dict ps) = map (\<lambda>p. Some (JInt (pid p))) ps"
proof -
  from assms obtain ps where ps: "get_processes (save_enumerated env) = Inr ps"
    by (cases "get_processes (save_enumerated env)") (simp_all add: save_snapshot_def)
  from assms ps have ok: "open_error env = None" "write_error env = None"
    by (auto simp: save_snapshot_def Let_def split: option.splits)
  have f: "map fields_of (map to_dict ps) = replicate (length ps) entry_format"
    by (induction ps) (simp_all add: fields_to_dict)
  have g: "map (\<lambda>j. field_of j ''pid'') (map to_dict ps) = map (\<lambda>p. Some (JInt (pid p))) ps"
    by (simp add: to_dict_def)
  from ps ok f g show ?thesis
    by (simp add: save_snapshot_def Let_def)
qed

theorem save_snapshot_document_witness:
  "fst (save_snapshot one_process ''snap.json'' Map.empty init) = None \<and>
   fst (snd (save_snapshot one_process ''snap.json'' Map.empty init)) ''snap.json'' =
     Some (Document (JObject
       [ (''timestamp'', JString ''2024-05-01T12:00:00.000000''),
         (''processes'', JArray
            [JObject [ (''pid'', JInt 1), (''name'', JString ''init''),
                       (''cpu_percent'', JFloat 2), (''memory_percent'', JFloat 0),
                       (''status'', JString ''sleeping''), (''create_time'', JFloat 5),
                       (''cmdline'', JArray [JString ''/sbin/init'']) ]]) ]))"
proof -
  have a: "fst (save_snapshot one_process ''snap.json'' Map.empty init) = None"
    by (simp add: save_snapshot_def one_process_def get_processes_def try_process_def)
  from save_snapshot_document [OF a] obtain ps where
    ps: "get_processes (save_enumerated one_process) = Inr ps" and
    d: "fst (snd (save_snapshot one_process ''snap.json'' Map.empty init)) =
       Map.empty(''snap.json'' \<mapsto> Document (JObject
         [ (''timestamp'', JString (now_isoformat one_process)),
           (''processes'', JArray (map to_dict ps)) ]))"
    by blast
  from ps have "ps = [\<lparr>pid = 1, name = ''init'', cpu_percent = 2, memory_percent = 0,
            status = ''sleeping'', create_time = 5, cmdline = [''/sbin/init'']\<rparr>]"
    by (simp add: one_process_def get_processes_def try_process_def make_process_info_def py_or_def
        truthy_seq_def truthy_float_def)
  with a d show ?thesis by (simp add: to_dict_def one_process_def)
qed

end
